theory Spec2Isabelle
  imports Main "HOL-Library.Char_ord" "HOL-Library.List_Lexorder" "HOL-Library.Multiset"
begin

section \<open>Data model of util.go\<close>

text \<open>
  Go strings are byte sequences, so they are HOL strings (lists of 8-bit characters).
  The struct types of the program are records. A Go function returning
  \<open>(T, error)\<close> returns a sum here: \<open>Inl\<close> carries the failure, \<open>Inr\<close> the value.
  A failure is either an \<open>error\<close> value handed back to the caller (its message), or a
  run-time panic, which no caller in the program recovers from.
\<close>

datatype failure = Error string | Panic string

record dependency =
  Name :: string
  Commit :: string
  CloneURL :: string
  Previous :: string

record change =
  change_Commit :: string
  Description :: string

record contributor =
  name :: string
  email :: string

record projectRename =
  Old :: string
  New :: string

definition dep :: "string \<Rightarrow> string \<Rightarrow> string \<Rightarrow> dependency" where
  "dep n c u = \<lparr>Name = n, Commit = c, CloneURL = u, Previous = []\<rparr>"

section \<open>The library functions the program calls\<close>

subsection \<open>Package strings\<close>

text \<open>
  \<open>strings.Index\<close>: the byte offset of the first occurrence of \<open>substr\<close>, or \<open>-1\<close>.
\<close>

fun indexFrom :: "int \<Rightarrow> string \<Rightarrow> string \<Rightarrow> int" where
  "indexFrom i [] substr = (if substr = [] then i else - 1)"
| "indexFrom i (c # cs) substr =
     (if take (length substr) (c # cs) = substr then i else indexFrom (i + 1) cs substr)"

definition strings_Index :: "string \<Rightarrow> string \<Rightarrow> int" where
  "strings_Index s substr = indexFrom 0 s substr"

text \<open>
  White space, as \<open>unicode.IsSpace\<close> sees it in a byte string: the six ASCII
  characters, and the UTF-8 encodings of U+0085, U+00A0, U+1680, U+2000 to U+200A,
  U+2028, U+2029, U+202F, U+205F and U+3000. Each of the encodings begins with a lead
  byte, which the decoder never consumes as part of an earlier code point, so an
  encoding is white space wherever it occurs.
\<close>

definition asciiSpace :: "char \<Rightarrow> bool" where
  "asciiSpace c \<longleftrightarrow> c \<in> set [CHR 0x09, CHR 0x0A, CHR 0x0B, CHR 0x0C, CHR 0x0D, CHR 0x20]"

definition spaceRunes :: "string list" where
  "spaceRunes =
     [[CHR 0xC2, CHR 0x85], [CHR 0xC2, CHR 0xA0], [CHR 0xE1, CHR 0x9A, CHR 0x80]] @
     map (\<lambda>b. [CHR 0xE2, CHR 0x80, b])
       [CHR 0x80, CHR 0x81, CHR 0x82, CHR 0x83, CHR 0x84, CHR 0x85, CHR 0x86, CHR 0x87,
        CHR 0x88, CHR 0x89, CHR 0x8A, CHR 0xA8, CHR 0xA9, CHR 0xAF] @
     [[CHR 0xE2, CHR 0x81, CHR 0x9F], [CHR 0xE3, CHR 0x80, CHR 0x80]]"

text \<open>
  \<open>spaceWidth runes s\<close> is the number of bytes of the white-space code point that
  \<open>s\<close> starts with, and \<open>0\<close> when it starts with none. Reading a string backwards
  (for the right end of \<open>TrimSpace\<close>) uses the reversed encodings.
\<close>

definition spaceWidth :: "string list \<Rightarrow> string \<Rightarrow> nat" where
  "spaceWidth runes s =
     (case s of
        [] \<Rightarrow> 0
      | c # _ \<Rightarrow>
          if asciiSpace c then 1
          else if \<not> digit7 c then 0
          else (case find (\<lambda>p. take (length p) s = p) runes of
                  None \<Rightarrow> 0
                | Some p \<Rightarrow> length p))"

text \<open>The first argument counts the bytes still to skip of a white-space code point.\<close>

fun dropSpace :: "string list \<Rightarrow> nat \<Rightarrow> string \<Rightarrow> string" where
  "dropSpace runes k [] = []"
| "dropSpace runes (Suc k) (c # cs) = dropSpace runes k cs"
| "dropSpace runes 0 (c # cs) =
     (case spaceWidth runes (c # cs) of
        0 \<Rightarrow> c # cs
      | Suc k \<Rightarrow> dropSpace runes k cs)"

definition TrimSpace :: "string \<Rightarrow> string" where
  "TrimSpace s = rev (dropSpace (map rev spaceRunes) 0 (rev (dropSpace spaceRunes 0 s)))"

text \<open>
  \<open>strings.Fields\<close>: the maximal runs of bytes between white space. The accumulator
  is the field being read.
\<close>

fun fieldsFrom :: "nat \<Rightarrow> string \<Rightarrow> string \<Rightarrow> string list" where
  "fieldsFrom k cur [] = (if cur = [] then [] else [cur])"
| "fieldsFrom (Suc k) cur (c # cs) = fieldsFrom k cur cs"
| "fieldsFrom 0 cur (c # cs) =
     (case spaceWidth spaceRunes (c # cs) of
        0 \<Rightarrow> fieldsFrom 0 (cur @ [c]) cs
      | Suc k \<Rightarrow> (if cur = [] then [] else [cur]) @ fieldsFrom k [] cs)"

definition Fields :: "string \<Rightarrow> string list" where
  "Fields s = fieldsFrom 0 [] s"

text \<open>
  \<open>strings.FieldsFunc\<close> for a separator test on single bytes (the program's only use
  is the ASCII character \<open>-\<close>, which no multi-byte code point contains).
\<close>

fun fieldsFuncFrom :: "(char \<Rightarrow> bool) \<Rightarrow> string \<Rightarrow> string \<Rightarrow> string list" where
  "fieldsFuncFrom f cur [] = (if cur = [] then [] else [cur])"
| "fieldsFuncFrom f cur (c # cs) =
     (if f c then (if cur = [] then [] else [cur]) @ fieldsFuncFrom f [] cs
      else fieldsFuncFrom f (cur @ [c]) cs)"

definition FieldsFunc :: "string \<Rightarrow> (char \<Rightarrow> bool) \<Rightarrow> string list" where
  "FieldsFunc s f = fieldsFuncFrom f [] s"

fun Join :: "string list \<Rightarrow> string \<Rightarrow> string" where
  "Join [] sep = []"
| "Join [x] sep = x"
| "Join (x # y # ys) sep = x @ sep @ Join (y # ys) sep"

subsection \<open>Package bufio: a Scanner splitting lines\<close>

text \<open>
  \<open>bufio.Scanner\<close> with the default split function \<open>ScanLines\<close> delivers the text
  between newlines, without a trailing carriage return, and a last unterminated line
  when it is not empty. Its buffer holds at most \<open>MaxScanTokenSize\<close> bytes: when those
  are read without a newline among them, \<open>Scan\<close> stops and \<open>Err\<close> reports
  \<open>ErrTooLong\<close>. The model returns the lines delivered and whether the scanner
  stopped with that error.
\<close>

definition MaxScanTokenSize :: int where
  "MaxScanTokenSize = 64 * 1024"

definition ErrTooLong :: failure where
  "ErrTooLong = Error ''bufio.Scanner: token too long''"

definition dropCR :: "string \<Rightarrow> string" where
  "dropCR s = (if s \<noteq> [] \<and> last s = CHR 0x0D then butlast s else s)"

fun scanFrom :: "string \<Rightarrow> string \<Rightarrow> string list \<times> bool" where
  "scanFrom cur [] = (if cur = [] then ([], False) else ([dropCR cur], False))"
| "scanFrom cur (c # cs) =
     (if c = CHR 0x0A then (case scanFrom [] cs of (lines, tooLong) \<Rightarrow> (dropCR cur # lines, tooLong))
      else if MaxScanTokenSize \<le> int (length cur) + 1 then ([], True)
      else scanFrom (cur @ [c]) cs)"

definition Scanner :: "string \<Rightarrow> string list \<times> bool" where
  "Scanner input = scanFrom [] input"

subsection \<open>Package regexp: the two patterns of the program\<close>

text \<open>
  \<open>regexp.Match\<close> with the pattern \<open>[0-9a-f]{40}\<close>, which has no anchors: some 40
  consecutive bytes of the text are lower-case hexadecimal digits.
\<close>

definition lowerHex :: "char \<Rightarrow> bool" where
  "lowerHex c \<longleftrightarrow> c \<in> set ''0123456789abcdef''"

definition regexp_Match_hex40 :: "string \<Rightarrow> bool" where
  "regexp_Match_hex40 b \<longleftrightarrow>
     list_ex (\<lambda>k. 40 \<le> length (drop k b) \<and> list_all lowerHex (take 40 (drop k b)))
       [0 ..< length b]"

text \<open>
  \<open>ReplaceAllStringFunc\<close> with the pattern \<open>^Merge pull request #[0-9]+\<close>. The
  pattern is anchored at the start of the text, so it matches at most once, at offset
  0; the repetition is greedy, so the match takes every digit that follows the
  \<open>#\<close>. The match is replaced by what \<open>repl\<close> returns for it.
\<close>

definition isDigit :: "char \<Rightarrow> bool" where
  "isDigit c \<longleftrightarrow> c \<in> set ''0123456789''"

definition mergePrefix :: string where
  "mergePrefix = ''Merge pull request #''"

definition ReplaceAllStringFunc :: "string \<Rightarrow> (string \<Rightarrow> string) \<Rightarrow> string" where
  "ReplaceAllStringFunc src repl =
     (if take (length mergePrefix) src = mergePrefix
         \<and> takeWhile isDigit (drop (length mergePrefix) src) \<noteq> []
      then repl (mergePrefix @ takeWhile isDigit (drop (length mergePrefix) src))
           @ dropWhile isDigit (drop (length mergePrefix) src)
      else src)"

section \<open>The manifest parsers\<close>

definition sanitizeLine :: "string \<Rightarrow> string \<Rightarrow> string" where
  "sanitizeLine line commentDelim =
     (let ln = TrimSpace line in
      if ln = [] then []
      else
        let cidx = strings_Index ln commentDelim in
        if cidx = 0 then []
        else TrimSpace (if cidx > 0 then take (nat cidx) ln else ln))"

definition getCommitOrVersion :: "string \<Rightarrow> string" where
  "getCommitOrVersion cov =
     (let dashFields = FieldsFunc cov (\<lambda>c. c = CHR ''-'') in
      if length dashFields = 1 \<or> length dashFields = 2 then
        (let incpIdx = strings_Index cov ''+incompatible'' in
         if incpIdx > 0 then take (nat incpIdx) cov else cov)
      else if length dashFields = 3 then dashFields ! 2
      else [])"

text \<open>
  The loop of \<open>parseGoModDependencies\<close> over the lines the scanner delivers. Its
  state is \<open>foundRequire\<close> and \<open>deps\<close>; \<open>tooLong\<close> is what \<open>s.Err()\<close> reports when
  the loop runs to the end of the lines. A \<open>break\<close> leaves the loop before the scanner
  has met a line that is too long.
\<close>

fun goModLoop :: "bool \<Rightarrow> dependency list \<Rightarrow> string list \<Rightarrow> bool \<Rightarrow> failure + dependency list" where
  "goModLoop foundRequire deps [] tooLong = (if tooLong then Inl ErrTooLong else Inr deps)"
| "goModLoop foundRequire deps (text # rest) tooLong =
     (let ln = sanitizeLine text ''//'' in
      if ln = [] then goModLoop foundRequire deps rest tooLong
      else
        let parts = Fields ln; numParts = length parts in
        if \<not> foundRequire \<and> numParts = 2 then
          (if parts ! 0 = ''require'' \<and> parts ! 1 = ''(''
           then goModLoop True deps rest tooLong
           else goModLoop foundRequire deps rest tooLong)
        else if numParts \<noteq> 2 then
          (if numParts = 1 \<and> parts ! 0 = '')''
           then Inr deps
           else Inl (Error (''invalid config format: '' @ ln)))
        else
          let commitOrVersion = getCommitOrVersion (parts ! 1) in
          if commitOrVersion = [] then
            Inl (Error (''invalid go.mod file, poorly formatted version in requires section ''
                        @ parts ! 1))
          else goModLoop foundRequire
                 (deps @ [dep (parts ! 0) commitOrVersion (''git://'' @ parts ! 0)])
                 rest tooLong)"

definition parseGoModDependencies :: "string \<Rightarrow> failure + dependency list" where
  "parseGoModDependencies r = (case Scanner r of (lines, tooLong) \<Rightarrow> goModLoop False [] lines tooLong)"

fun vendorConfLoop :: "dependency list \<Rightarrow> string list \<Rightarrow> bool \<Rightarrow> failure + dependency list" where
  "vendorConfLoop deps [] tooLong = (if tooLong then Inl ErrTooLong else Inr deps)"
| "vendorConfLoop deps (text # rest) tooLong =
     (let ln = sanitizeLine text ''#'' in
      if ln = [] then vendorConfLoop deps rest tooLong
      else
        let parts = Fields ln in
        if length parts \<noteq> 2 \<and> length parts \<noteq> 3 then
          Inl (Error (''invalid config format: '' @ ln))
        else
          let cloneURL = (if length parts = 3 then parts ! 2 else ''git://'' @ parts ! 0);
              commitOrVersion =
                (if regexp_Match_hex40 (parts ! 1) then take 12 (parts ! 1) else parts ! 1)
          in vendorConfLoop (deps @ [dep (parts ! 0) commitOrVersion cloneURL]) rest tooLong)"

definition parseVendorConfDependencies :: "string \<Rightarrow> failure + dependency list" where
  "parseVendorConfDependencies r =
     (case Scanner r of (lines, tooLong) \<Rightarrow> vendorConfLoop [] lines tooLong)"

section \<open>Reading the repository\<close>

text \<open>
  \<open>git\<close> runs an external command. The command is a parameter of the model: \<open>run\<close>
  maps the argument list to the combined output and the error of
  \<open>exec.Command("git", gitArgs...).CombinedOutput()\<close>, if there is one. The global
  \<open>gitConfigs\<close> is the list of its entries in the order in which the run-time system
  enumerates the map. The state threaded through is the list of the commands that
  have been run.
\<close>

type_synonym command = "string list \<Rightarrow> string \<times> string option"

definition git ::
  "(string \<times> string) list \<Rightarrow> command \<Rightarrow> string list \<Rightarrow> string list list
    \<Rightarrow> (failure + string) \<times> string list list" where
  "git gitConfigs run args tr =
     (let gitArgs = concat (map (\<lambda>(k, v). [''-c'', k @ ''='' @ v]) gitConfigs) @ args in
      case run gitArgs of
        (out, Some err) \<Rightarrow> (Inl (Error (err @ '': '' @ out)), tr @ [gitArgs])
      | (out, None) \<Rightarrow> (Inr out, tr @ [gitArgs]))"

definition fileFromRev ::
  "(string \<times> string) list \<Rightarrow> command \<Rightarrow> string \<Rightarrow> string \<Rightarrow> string list list
    \<Rightarrow> (failure + string) \<times> string list list" where
  "fileFromRev gitConfigs run revision file tr =
     git gitConfigs run [''show'', revision @ '':'' @ file] tr"

definition vendorConf :: string where
  "vendorConf = ''vendor.conf''"

definition goMod :: string where
  "goMod = ''go.mod''"

text \<open>The text that \<open>%v\<close> prints for an error.\<close>

fun message :: "failure \<Rightarrow> string" where
  "message (Error m) = m"
| "message (Panic m) = m"

definition parseDependencies ::
  "(string \<times> string) list \<Rightarrow> command \<Rightarrow> string \<Rightarrow> string list list
    \<Rightarrow> (failure + dependency list) \<times> string list list" where
  "parseDependencies gitConfigs run commit tr =
     (case fileFromRev gitConfigs run commit vendorConf tr of
        (Inr rd, tr1) \<Rightarrow> (parseVendorConfDependencies rd, tr1)
      | (Inl err, tr1) \<Rightarrow>
          (case fileFromRev gitConfigs run commit goMod tr1 of
             (Inr rd, tr2) \<Rightarrow> (parseGoModDependencies rd, tr2)
           | (Inl err2, tr2) \<Rightarrow>
               (Inl (Error (''finding current dep file failed. vendor.conf error: ''
                            @ message err @ '', go.mod error: '' @ message err2)),
                tr2)))"

section \<open>The changelog\<close>

text \<open>
  \<open>parseChangelog\<close> reads \<open>fields[0]\<close> and \<open>fields[1:]\<close> without a test of the
  number of fields. On a line without fields both are out of range, and the run-time
  system stops the program with a panic. The language does not fix which of the two
  is evaluated first; the compiled program evaluates the slice first, and the panic
  carries its message.
\<close>

fun changelogLoop :: "change list \<Rightarrow> string list \<Rightarrow> bool \<Rightarrow> failure + change list" where
  "changelogLoop changes [] tooLong = (if tooLong then Inl ErrTooLong else Inr changes)"
| "changelogLoop changes (text # rest) tooLong =
     (case Fields text of
        [] \<Rightarrow> Inl (Panic ''runtime error: slice bounds out of range [1:0]'')
      | f # fs \<Rightarrow>
          changelogLoop (changes @ [\<lparr>change_Commit = f, Description = Join fs '' ''\<rparr>])
            rest tooLong)"

definition parseChangelog :: "string \<Rightarrow> failure + change list" where
  "parseChangelog changelog =
     (case Scanner changelog of (lines, tooLong) \<Rightarrow> changelogLoop [] lines tooLong)"

text \<open>
  The function that \<open>githubPRLink\<close> returns, applied to a change. The inner function
  is the replacement of a match \<open>m\<close>, which always contains a \<open>#\<close>.
\<close>

definition prLink :: "string \<Rightarrow> string \<Rightarrow> string" where
  "prLink repo m =
     (let idx = strings_Index m ''#'';
          pr = drop (nat (idx + 1)) m;
          link = ''https://github.com/'' @ repo @ ''/pull/'' @ pr
      in take (nat idx) m @ '' [#'' @ pr @ '']('' @ link @ '')'')"

definition githubPRLink :: "string \<Rightarrow> change \<Rightarrow> failure + string" where
  "githubPRLink repo c = Inr (ReplaceAllStringFunc (Description c) (prLink repo))"

section \<open>Renaming and comparing dependencies\<close>

text \<open>
  A Go map that the program receives and ranges over is the list of its entries in
  the order in which this run enumerates them; the keys of the list are distinct, and
  every order is possible. \<open>renameMap\<close> is built by assignments in that order, so of two
  entries with the same \<open>Old\<close> the later one stays. The debug log line is not part of
  the model. The slice is updated in place; the model returns the updated slice.
\<close>

definition renameMap :: "(string \<times> projectRename) list \<Rightarrow> (string \<rightharpoonup> string \<times> string)" where
  "renameMap renames =
     foldl (\<lambda>m (shortname, rename). m(Old rename \<mapsto> (shortname, New rename))) Map.empty renames"

definition renameDependencies ::
  "dependency list \<Rightarrow> (string \<times> projectRename) list \<Rightarrow> dependency list" where
  "renameDependencies deps renames =
     (if length renames = 0 then deps
      else map (\<lambda>d. case renameMap renames (Name d) of
                      Some updated \<Rightarrow> d\<lparr>Name := snd updated\<rparr>
                    | None \<Rightarrow> d) deps)"

definition toDepMap :: "dependency list \<Rightarrow> (string \<rightharpoonup> dependency)" where
  "toDepMap deps = foldl (\<lambda>out d. out(Name d \<mapsto> d)) Map.empty deps"

text \<open>
  \<open>updatedDeps\<close> ranges over the map \<open>cm\<close> it has built itself: \<open>keys\<close> is the order in
  which the run-time system enumerates the keys of \<open>cm\<close>, a list without repetition of
  exactly those keys.
\<close>

fun updatedLoop ::
  "(string \<rightharpoonup> dependency) \<Rightarrow> (string \<rightharpoonup> dependency) \<Rightarrow> string list \<Rightarrow> dependency list
    \<Rightarrow> dependency list" where
  "updatedLoop pm cm [] updated = updated"
| "updatedLoop pm cm (k # keys) updated =
     (case cm k of
        None \<Rightarrow> updatedLoop pm cm keys updated
      | Some c \<Rightarrow>
          (case pm k of
             None \<Rightarrow> updatedLoop pm cm keys (updated @ [c])
           | Some d \<Rightarrow>
               if Commit d \<noteq> Commit c
               then updatedLoop pm cm keys (updated @ [c\<lparr>Previous := Commit d\<rparr>])
               else updatedLoop pm cm keys updated))"

definition updatedDeps :: "string list \<Rightarrow> dependency list \<Rightarrow> dependency list \<Rightarrow> dependency list" where
  "updatedDeps keys previous deps = updatedLoop (toDepMap previous) (toDepMap deps) keys []"

definition keysOf :: "string list \<Rightarrow> dependency list \<Rightarrow> bool" where
  "keysOf keys deps \<longleftrightarrow> distinct keys \<and> set keys = Name ` set deps"

text \<open>What one turn of the loop of \<open>updatedDeps\<close> appends, for the key \<open>k\<close>.\<close>

definition noted :: "(string \<rightharpoonup> dependency) \<Rightarrow> (string \<rightharpoonup> dependency) \<Rightarrow> string \<Rightarrow> dependency list" where
  "noted pm cm k =
     (case cm k of
        None \<Rightarrow> []
      | Some c \<Rightarrow>
          (case pm k of
             None \<Rightarrow> [c]
           | Some d \<Rightarrow> if Commit d \<noteq> Commit c then [c\<lparr>Previous := Commit d\<rparr>] else []))"

section \<open>Ranking contributors\<close>

record contribstat =
  stat_name :: string
  stat_email :: string
  stat_count :: int

text \<open>The function handed to \<open>sort.Slice\<close>, on the elements at the two indices.\<close>

definition less_stat :: "contribstat \<Rightarrow> contribstat \<Rightarrow> bool" where
  "less_stat a b =
     (if stat_count a = stat_count b then stat_name a < stat_name b
      else stat_count a > stat_count b)"

text \<open>
  \<open>sort.Slice\<close> is a parameter: any function that permutes the slice so that no element
  is less than an earlier one. The library promises no more (the sort is not stable).
\<close>

definition sorts :: "(contribstat list \<Rightarrow> (contribstat \<Rightarrow> contribstat \<Rightarrow> bool) \<Rightarrow> contribstat list) \<Rightarrow> bool" where
  "sorts sort_Slice \<longleftrightarrow>
     (\<forall>xs. mset (sort_Slice xs less_stat) = mset xs
          \<and> sorted_wrt (\<lambda>a b. \<not> less_stat b a) (sort_Slice xs less_stat))"

definition stat :: "contributor \<times> int \<Rightarrow> contribstat" where
  "stat e = \<lparr>stat_name = name (fst e), stat_email = email (fst e), stat_count = snd e\<rparr>"

definition orderContributors ::
  "(contribstat list \<Rightarrow> (contribstat \<Rightarrow> contribstat \<Rightarrow> bool) \<Rightarrow> contribstat list)
    \<Rightarrow> (contributor \<times> int) list \<Rightarrow> string list" where
  "orderContributors sort_Slice contributors =
     map stat_name (sort_Slice (map stat contributors) less_stat)"

text \<open>One sorting function, by insertion, to run the ranking on examples.\<close>

fun insert_stat ::
  "(contribstat \<Rightarrow> contribstat \<Rightarrow> bool) \<Rightarrow> contribstat \<Rightarrow> contribstat list \<Rightarrow> contribstat list" where
  "insert_stat lt x [] = [x]"
| "insert_stat lt x (y # ys) = (if lt y x then y # insert_stat lt x ys else x # y # ys)"

definition insertion_sort ::
  "contribstat list \<Rightarrow> (contribstat \<Rightarrow> contribstat \<Rightarrow> bool) \<Rightarrow> contribstat list" where
  "insertion_sort xs lt = foldr (insert_stat lt) xs []"

section \<open>Notions used to state the properties\<close>

text \<open>The entry of the tally that a \<open>contribstat\<close> was made from.\<close>

definition unstat :: "contribstat \<Rightarrow> contributor \<times> int" where
  "unstat s = (\<lparr>name = stat_name s, email = stat_email s\<rparr>, stat_count s)"

text \<open>
  Whether a result is the error that \<open>parseDependencies\<close> makes from two failed
  lookups: its message begins with the fixed text of that error.
\<close>

definition combined :: "failure + dependency list \<Rightarrow> bool" where
  "combined r =
     (case r of
        Inl (Error m) \<Rightarrow> take 33 m = ''finding current dep file failed. ''
      | _ \<Rightarrow> False)"

text \<open>Three repositories: with vendor.conf only, with go.mod only, with neither.\<close>

definition onlyVendorConf :: command where
  "onlyVendorConf args =
     (if args = [''show'', ''HEAD:vendor.conf''] then (''a/b v1 # pinned'', None)
      else (''fatal: path does not exist'', Some ''exit status 128''))"

definition onlyGoMod :: command where
  "onlyGoMod args =
     (if args = [''show'', ''HEAD:go.mod''] then (''require (\<newline>a/b v1\<newline>)'', None)
      else (''fatal: path does not exist'', Some ''exit status 128''))"

definition neither :: command where
  "neither args = (''fatal: path does not exist'', Some ''exit status 128'')"

text \<open>
  The rule for a version of one or two dash fields as the specification words it:
  the input, without the suffix \<open>+incompatible\<close> when it has that suffix.
\<close>

definition spec_stripIncompatible :: "string \<Rightarrow> string" where
  "spec_stripIncompatible cov =
     (if 13 \<le> length cov \<and> drop (length cov - 13) cov = ''+incompatible''
      then take (length cov - 13) cov
      else cov)"

text \<open>
  A 40-character lower-case hexadecimal string: the full commit hash that
  \<open>parseVendorConfDependencies\<close> shortens to 12 characters.
\<close>

definition hex40 :: "string \<Rightarrow> bool" where
  "hex40 c \<longleftrightarrow> length c = 40 \<and> list_all lowerHex c"

section \<open>Properties of the comparison of dependencies\<close>

text \<open>The local variables of the program are let-bindings, unfolded in the proofs.\<close>

declare Let_def [simp]

lemma toDepMap_snoc: "toDepMap (ds @ [d]) = (toDepMap ds)(Name d \<mapsto> d)"
  by (simp add: toDepMap_def)

lemma toDepMap_Nil: "toDepMap [] = Map.empty"
  by (simp add: toDepMap_def)

lemma toDepMap_Some: "toDepMap ds k = Some d \<Longrightarrow> d \<in> set ds \<and> Name d = k"
  by (induction ds rule: rev_induct) (auto simp: toDepMap_snoc toDepMap_Nil split: if_splits)

lemma toDepMap_None: "toDepMap ds k = None \<longleftrightarrow> k \<notin> Name ` set ds"
  by (induction ds rule: rev_induct) (auto simp: toDepMap_snoc toDepMap_Nil)

lemma toDepMap_distinct:
  "distinct (map Name ds) \<Longrightarrow> d \<in> set ds \<Longrightarrow> toDepMap ds (Name d) = Some d"
proof (induction ds rule: rev_induct)
  case Nil
  then show ?case by simp
next
  case (snoc x xs)
  have nx: "Name x \<notin> Name ` set xs" and dx: "distinct (map Name xs)"
    using snoc.prems(1) by auto
  show ?case
  proof (cases "d = x")
    case True
    then show ?thesis by (simp add: toDepMap_snoc)
  next
    case False
    then have "d \<in> set xs" using snoc.prems(2) by simp
    moreover from this have "Name d \<noteq> Name x" using nx by (metis imageI)
    ultimately show ?thesis using snoc.IH dx by (simp add: toDepMap_snoc)
  qed
qed

lemma keysOf_dom: "keysOf keys deps \<longleftrightarrow> distinct keys \<and> set keys = dom (toDepMap deps)"
proof -
  have "dom (toDepMap deps) = Name ` set deps"
    using toDepMap_None [of deps] by (auto simp: dom_def)
  then show ?thesis by (simp add: keysOf_def)
qed

lemma updatedLoop_same: "updatedLoop m m keys acc = acc"
  by (induction keys arbitrary: acc) (auto split: option.splits)

lemma updatedLoop_noted: "updatedLoop pm cm keys acc = acc @ concat (map (noted pm cm) keys)"
  by (induction keys arbitrary: acc) (simp_all add: noted_def split: option.splits)

lemma noted_new:
  "cm k = Some c \<Longrightarrow> pm k = None \<Longrightarrow> noted pm cm k = [c]"
  by (simp add: noted_def)

lemma noted_changed:
  "cm k = Some c \<Longrightarrow> pm k = Some d \<Longrightarrow> Commit d \<noteq> Commit c
    \<Longrightarrow> noted pm cm k = [c\<lparr>Previous := Commit d\<rparr>]"
  by (simp add: noted_def)

lemma noted_cases:
  "x \<in> set (noted pm cm k) \<Longrightarrow>
     (\<exists>c. cm k = Some c \<and> pm k = None \<and> x = c)
   \<or> (\<exists>c d. cm k = Some c \<and> pm k = Some d \<and> Commit d \<noteq> Commit c \<and> x = c\<lparr>Previous := Commit d\<rparr>)"
  by (cases "cm k"; cases "pm k") (auto simp: noted_def split: if_splits)

lemma updatedDeps_set:
  assumes "distinct (map Name previous)" and "distinct (map Name deps)" and "keysOf keys deps"
  shows "set (updatedDeps keys previous deps) =
           {c \<in> set deps. Name c \<notin> Name ` set previous}
         \<union> {c\<lparr>Previous := Commit d\<rparr> | c d.
              c \<in> set deps \<and> d \<in> set previous \<and> Name d = Name c \<and> Commit d \<noteq> Commit c}"
proof (intro set_eqI iffI)
  fix x
  assume "x \<in> set (updatedDeps keys previous deps)"
  then obtain k where "x \<in> set (noted (toDepMap previous) (toDepMap deps) k)"
    by (auto simp: updatedDeps_def updatedLoop_noted)
  then consider
      c where "toDepMap deps k = Some c" "toDepMap previous k = None" "x = c"
    | c d where "toDepMap deps k = Some c" "toDepMap previous k = Some d"
        "Commit d \<noteq> Commit c" "x = c\<lparr>Previous := Commit d\<rparr>"
    using noted_cases by blast
  then show "x \<in> {c \<in> set deps. Name c \<notin> Name ` set previous}
         \<union> {c\<lparr>Previous := Commit d\<rparr> | c d.
              c \<in> set deps \<and> d \<in> set previous \<and> Name d = Name c \<and> Commit d \<noteq> Commit c}"
  proof cases
    case 1
    have "c \<in> set deps \<and> Name c = k" using 1(1) by (rule toDepMap_Some)
    moreover have "k \<notin> Name ` set previous" using 1(2) by (simp add: toDepMap_None)
    ultimately show ?thesis using 1(3) by simp
  next
    case 2
    have "c \<in> set deps \<and> Name c = k" using 2(1) by (rule toDepMap_Some)
    moreover have "d \<in> set previous \<and> Name d = k" using 2(2) by (rule toDepMap_Some)
    ultimately show ?thesis using 2(3,4) by blast
  qed
next
  fix x
  assume "x \<in> {c \<in> set deps. Name c \<notin> Name ` set previous}
         \<union> {c\<lparr>Previous := Commit d\<rparr> | c d.
              c \<in> set deps \<and> d \<in> set previous \<and> Name d = Name c \<and> Commit d \<noteq> Commit c}"
  then consider
      "x \<in> set deps" "Name x \<notin> Name ` set previous"
    | c d where "x = c\<lparr>Previous := Commit d\<rparr>" "c \<in> set deps" "d \<in> set previous"
        "Name d = Name c" "Commit d \<noteq> Commit c"
    by blast
  then have "\<exists>k \<in> set keys. x \<in> set (noted (toDepMap previous) (toDepMap deps) k)"
  proof cases
    case 1
    have "toDepMap deps (Name x) = Some x" using assms(2) 1(1) by (rule toDepMap_distinct)
    moreover have "toDepMap previous (Name x) = None" using 1(2) by (simp add: toDepMap_None)
    ultimately have "noted (toDepMap previous) (toDepMap deps) (Name x) = [x]"
      by (rule noted_new)
    moreover have "Name x \<in> set keys" using assms(3) 1(1) by (simp add: keysOf_def)
    ultimately show ?thesis by force
  next
    case 2
    have "toDepMap deps (Name c) = Some c" using assms(2) 2(2) by (rule toDepMap_distinct)
    moreover have "toDepMap previous (Name c) = Some d"
      using toDepMap_distinct [OF assms(1) 2(3)] 2(4) by simp
    ultimately have "noted (toDepMap previous) (toDepMap deps) (Name c) = [c\<lparr>Previous := Commit d\<rparr>]"
      using 2(5) by (rule noted_changed)
    moreover have "Name c \<in> set keys" using assms(3) 2(2) by (simp add: keysOf_def)
    ultimately show ?thesis using 2(1) by force
  qed
  then show "x \<in> set (updatedDeps keys previous deps)"
    by (auto simp: updatedDeps_def updatedLoop_noted)
qed

lemma same_Name_same_dep:
  "distinct (map Name ds) \<Longrightarrow> a \<in> set ds \<Longrightarrow> b \<in> set ds \<Longrightarrow> Name a = Name b \<Longrightarrow> a = b"
  by (meson distinct_map inj_onD)

text \<open>
  Claim C5. For a previous and a current list of dependencies, each with unique names,
  and for every order in which the keys of the current lookup are enumerated, the
  result of \<open>updatedDeps\<close> holds, as a set, exactly the current dependencies whose name
  is absent from the previous list, unchanged, and the current dependencies whose name
  is in the previous list with another commit, with \<open>Previous\<close> set to the old commit;
  no entry of the result has the name of a dependency whose commit is unchanged.
\<close>

theorem updatedDeps_new_and_changed:
  assumes "distinct (map Name previous)" and "distinct (map Name deps)" and "keysOf keys deps"
  shows "set (updatedDeps keys previous deps) =
           {c \<in> set deps. Name c \<notin> Name ` set previous}
         \<union> {c\<lparr>Previous := Commit d\<rparr> | c d.
              c \<in> set deps \<and> d \<in> set previous \<and> Name d = Name c \<and> Commit d \<noteq> Commit c}
       \<and> (\<forall>c \<in> set deps. \<forall>d \<in> set previous.
            Name d = Name c \<and> Commit d = Commit c
            \<longrightarrow> Name c \<notin> Name ` set (updatedDeps keys previous deps))"
proof (intro conjI ballI impI)
  show eq: "set (updatedDeps keys previous deps) =
           {c \<in> set deps. Name c \<notin> Name ` set previous}
         \<union> {c\<lparr>Previous := Commit d\<rparr> | c d.
              c \<in> set deps \<and> d \<in> set previous \<and> Name d = Name c \<and> Commit d \<noteq> Commit c}"
    using assms by (rule updatedDeps_set)
  fix c d
  assume c: "c \<in> set deps" and d: "d \<in> set previous"
    and same: "Name d = Name c \<and> Commit d = Commit c"
  show "Name c \<notin> Name ` set (updatedDeps keys previous deps)"
  proof
    assume "Name c \<in> Name ` set (updatedDeps keys previous deps)"
    then obtain u where u: "u \<in> set (updatedDeps keys previous deps)" and n: "Name u = Name c"
      by force
    from u consider "u \<in> set deps" "Name u \<notin> Name ` set previous"
      | c' d' where "u = c'\<lparr>Previous := Commit d'\<rparr>" "c' \<in> set deps" "d' \<in> set previous"
          "Name d' = Name c'" "Commit d' \<noteq> Commit c'"
      unfolding eq by blast
    then show False
    proof cases
      case 1
      have "Name u \<in> Name ` set previous" using d same n by (metis imageI)
      then show False using 1(2) by simp
    next
      case 2
      have "Name c' = Name c" using 2(1) n by simp
      then have "c' = c" using same_Name_same_dep [OF assms(2) 2(2) c] by simp
      moreover have "d' = d"
        using same_Name_same_dep [OF assms(1) 2(3) d] 2(4) same \<open>Name c' = Name c\<close> by simp
      ultimately show False using 2(5) same by simp
    qed
  qed
qed

theorem updatedDeps_new_and_changed_witness:
  "distinct (map Name [dep ''A'' ''v1'' []])
   \<and> distinct (map Name [dep ''A'' ''v2'' [], dep ''B'' ''v1'' []])
   \<and> keysOf [''B'', ''A''] [dep ''A'' ''v2'' [], dep ''B'' ''v1'' []]
   \<and> set (updatedDeps [''B'', ''A''] [dep ''A'' ''v1'' []] [dep ''A'' ''v2'' [], dep ''B'' ''v1'' []])
       = {(dep ''A'' ''v2'' [])\<lparr>Previous := ''v1''\<rparr>, dep ''B'' ''v1'' []}
   \<and> set (updatedDeps [''A'', ''B''] [dep ''A'' ''v1'' []] [dep ''A'' ''v2'' [], dep ''B'' ''v1'' []])
       = {(dep ''A'' ''v2'' [])\<lparr>Previous := ''v1''\<rparr>, dep ''B'' ''v1'' []}"
  using updatedDeps_new_and_changed
    [of "[dep ''A'' ''v1'' []]" "[dep ''A'' ''v2'' [], dep ''B'' ''v1'' []]" "[''B'', ''A'']"]
  by (simp add: keysOf_def dep_def updatedDeps_def toDepMap_def insert_commute)

text \<open>
  Claim C6. Comparing a list of dependencies with itself gives the empty list, for
  every list (names may repeat) and every order of enumeration.
\<close>

theorem updatedDeps_same_is_empty: "updatedDeps keys X X = []"
  by (simp add: updatedDeps_def updatedLoop_same)

section \<open>Properties of the renaming\<close>

lemma renameMap_Nil: "renameMap [] = Map.empty"
  by (simp add: renameMap_def)

lemma renameMap_snoc:
  "renameMap (rs @ [(s, r)]) = (renameMap rs)(Old r \<mapsto> (s, New r))"
  by (simp add: renameMap_def)

lemma renameMap_Some:
  "renameMap rs k = Some u \<Longrightarrow> \<exists>s r. (s, r) \<in> set rs \<and> Old r = k \<and> u = (s, New r)"
proof (induction rs rule: rev_induct)
  case Nil
  then show ?case by (simp add: renameMap_Nil)
next
  case (snoc x xs)
  obtain s r where x: "x = (s, r)" by (cases x)
  show ?case
  proof (cases "k = Old r")
    case True
    then have "u = (s, New r)" using snoc.prems x by (simp add: renameMap_snoc)
    then show ?thesis using True x by auto
  next
    case False
    then have "renameMap xs k = Some u" using snoc.prems x by (simp add: renameMap_snoc)
    then obtain s' r' where "(s', r') \<in> set xs \<and> Old r' = k \<and> u = (s', New r')"
      using snoc.IH by blast
    then show ?thesis by auto
  qed
qed

lemma renameMap_None: "renameMap rs k = None \<longleftrightarrow> k \<notin> (Old \<circ> snd) ` set rs"
proof (induction rs rule: rev_induct)
  case Nil
  show ?case by (simp add: renameMap_Nil)
next
  case (snoc x xs)
  obtain s r where x: "x = (s, r)" by (cases x)
  show ?case using snoc.IH by (auto simp: x renameMap_snoc)
qed

lemma renameDependencies_nth:
  assumes "i < length deps"
  shows "renameDependencies deps renames ! i =
           (case renameMap renames (Name (deps ! i)) of
              Some updated \<Rightarrow> (deps ! i)\<lparr>Name := snd updated\<rparr>
            | None \<Rightarrow> deps ! i)"
proof (cases "renames = []")
  case True
  then show ?thesis by (simp add: renameDependencies_def renameMap_Nil)
next
  case False
  then show ?thesis using assms by (simp add: renameDependencies_def)
qed

text \<open>
  Claim C7. \<open>renameDependencies\<close> keeps the length and the order of the list. An entry
  whose name is the \<open>Old\<close> of some rename gets the \<open>New\<close> of a rename with that \<open>Old\<close>
  as its name and is otherwise unchanged; every other entry is unchanged. So
  \<open>Commit\<close>, \<open>CloneURL\<close> and \<open>Previous\<close> are unchanged everywhere, and with an empty
  table the list is unchanged.
\<close>

theorem renameDependencies_frame:
  "length (renameDependencies deps renames) = length deps
   \<and> (\<forall>i < length deps.
        (if Name (deps ! i) \<in> (Old \<circ> snd) ` set renames
         then \<exists>(s, r) \<in> set renames. Old r = Name (deps ! i)
                \<and> renameDependencies deps renames ! i = (deps ! i)\<lparr>Name := New r\<rparr>
         else renameDependencies deps renames ! i = deps ! i)
        \<and> Commit (renameDependencies deps renames ! i) = Commit (deps ! i)
        \<and> CloneURL (renameDependencies deps renames ! i) = CloneURL (deps ! i)
        \<and> Previous (renameDependencies deps renames ! i) = Previous (deps ! i))
   \<and> renameDependencies deps [] = deps"
proof (intro conjI allI impI)
  show "length (renameDependencies deps renames) = length deps"
    by (simp add: renameDependencies_def)
  show "renameDependencies deps [] = deps"
    by (simp add: renameDependencies_def)
next
  fix i assume i: "i < length deps"
  note nth = renameDependencies_nth [OF i, of renames]
  show "if Name (deps ! i) \<in> (Old \<circ> snd) ` set renames
         then \<exists>(s, r) \<in> set renames. Old r = Name (deps ! i)
                \<and> renameDependencies deps renames ! i = (deps ! i)\<lparr>Name := New r\<rparr>
         else renameDependencies deps renames ! i = deps ! i"
  proof (cases "renameMap renames (Name (deps ! i))")
    case None
    then have "Name (deps ! i) \<notin> (Old \<circ> snd) ` set renames"
      using renameMap_None [of renames "Name (deps ! i)"] by simp
    then show ?thesis using nth None by simp
  next
    case (Some u)
    then obtain s r where "(s, r) \<in> set renames" "Old r = Name (deps ! i)" "u = (s, New r)"
      using renameMap_Some by blast
    moreover have "Name (deps ! i) \<in> (Old \<circ> snd) ` set renames"
      using Some renameMap_None [of renames "Name (deps ! i)"] by simp
    ultimately show ?thesis using nth Some by force
  qed
  show "Commit (renameDependencies deps renames ! i) = Commit (deps ! i)"
    using nth by (simp split: option.splits)
  show "CloneURL (renameDependencies deps renames ! i) = CloneURL (deps ! i)"
    using nth by (simp split: option.splits)
  show "Previous (renameDependencies deps renames ! i) = Previous (deps ! i)"
    using nth by (simp split: option.splits)
qed

theorem renameDependencies_frame_witness:
  "renameDependencies [dep ''old/pkg'' ''v1'' ''git://old/pkg'', dep ''other'' ''v2'' ''u'']
     [(''shortname'', \<lparr>Old = ''old/pkg'', New = ''new/pkg''\<rparr>)]
   = [dep ''new/pkg'' ''v1'' ''git://old/pkg'', dep ''other'' ''v2'' ''u'']
   \<and> ''old/pkg'' \<in> (Old \<circ> snd) ` set [(''shortname'', \<lparr>Old = ''old/pkg'', New = ''new/pkg''\<rparr>)]
   \<and> ''other'' \<notin> (Old \<circ> snd) ` set [(''shortname'', \<lparr>Old = ''old/pkg'', New = ''new/pkg''\<rparr>)]"
  using renameDependencies_frame
    [of "[dep ''old/pkg'' ''v1'' ''git://old/pkg'', dep ''other'' ''v2'' ''u'']"
        "[(''shortname'', \<lparr>Old = ''old/pkg'', New = ''new/pkg''\<rparr>)]"]
  by (simp add: renameDependencies_def renameMap_def dep_def)

section \<open>Properties of the ranking\<close>

lemma unstat_stat: "unstat (stat e) = e"
  by (cases e) (simp add: unstat_def stat_def)

lemma not_less_stat:
  "\<not> less_stat b a \<longleftrightarrow>
     stat_count a > stat_count b \<or> (stat_count a = stat_count b \<and> stat_name a \<le> stat_name b)"
  by (auto simp: less_stat_def)

lemma less_stat_asym: "less_stat a b \<Longrightarrow> \<not> less_stat b a"
  by (auto simp: less_stat_def split: if_splits)

lemma less_stat_negtrans: "\<not> less_stat c b \<Longrightarrow> \<not> less_stat b a \<Longrightarrow> \<not> less_stat c a"
  by (auto simp: less_stat_def split: if_splits)

lemma set_insert_stat: "set (insert_stat lt x ys) = insert x (set ys)"
  by (induction ys) auto

lemma mset_insert_stat: "mset (insert_stat lt x ys) = add_mset x (mset ys)"
  by (induction ys) auto

lemma sorted_insert_stat:
  "sorted_wrt (\<lambda>a b. \<not> less_stat b a) ys
    \<Longrightarrow> sorted_wrt (\<lambda>a b. \<not> less_stat b a) (insert_stat less_stat x ys)"
proof (induction ys)
  case Nil
  show ?case by simp
next
  case (Cons y ys)
  show ?case
  proof (cases "less_stat y x")
    case True
    then show ?thesis
      using Cons less_stat_asym [of y x] by (auto simp: set_insert_stat)
  next
    case False
    then show ?thesis
      using Cons less_stat_negtrans [of _ y x] by auto
  qed
qed

lemma sorts_insertion_sort: "sorts insertion_sort"
proof -
  have "mset (insertion_sort xs less_stat) = mset xs
        \<and> sorted_wrt (\<lambda>a b. \<not> less_stat b a) (insertion_sort xs less_stat)" for xs
    by (induction xs) (simp_all add: insertion_sort_def mset_insert_stat sorted_insert_stat)
  then show ?thesis by (simp add: sorts_def)
qed



lemma three_sorted:
  assumes m: "mset ss = {#a, b, c#}"
    and s: "sorted_wrt (\<lambda>x y. \<not> less_stat y x) ss"
    and ab: "less_stat a b" and ac: "less_stat a c" and bc: "less_stat b c"
  shows "ss = [a, b, c]"
proof -
  have "size (mset ss) = size {#a, b, c#}" using m by simp
  then have "length ss = Suc (Suc (Suc 0))" by simp
  then obtain x y z where ss: "ss = [x, y, z]"
    by (auto simp: length_Suc_conv)
  have "set_mset (mset ss) = set_mset {#a, b, c#}" using m by simp
  then have set: "{x, y, z} = {a, b, c}" using ss by simp
  have xm: "x = a \<or> x = b \<or> x = c" and ym: "y = a \<or> y = b \<or> y = c"
    and zm: "z = a \<or> z = b \<or> z = c"
    using set by blast+
  have am: "a = x \<or> a = y \<or> a = z" and bm: "b = x \<or> b = y \<or> b = z"
    and cm: "c = x \<or> c = y \<or> c = z"
    using set by blast+
  have ne: "a \<noteq> b" "a \<noteq> c" "b \<noteq> c"
    using ab ac bc less_stat_asym by blast+
  have o: "\<not> less_stat y x" "\<not> less_stat z x" "\<not> less_stat z y"
    using s ss by simp_all
  have x: "x = a"
  proof (rule ccontr)
    assume n: "x \<noteq> a"
    then have "less_stat a x" using xm ab ac by blast
    moreover have "a = y \<or> a = z" using am n by blast
    ultimately show False using o by blast
  qed
  have y: "y = b"
  proof (rule ccontr)
    assume n: "y \<noteq> b"
    then have "b = z" using bm x ne by blast
    moreover have "c = y" using cm x ne \<open>b = z\<close> by blast
    ultimately show False using bc o by blast
  qed
  have "z = c" using cm x y ne by blast
  then show ?thesis using ss x y by simp
qed


text \<open>
  Claim C8. For every tally of contributors (a map, so its keys are distinct) and
  every function that \<open>sort.Slice\<close> may be, \<open>orderContributors\<close> returns one name for
  each key of the map, and the names are those of the entries in an order in which
  the counts descend and, where the counts are equal, the names ascend. For the counts
  A:3, B:3, C:1 with A < B the result is [A, B, C], in whatever order the map is
  enumerated.
\<close>

theorem orderContributors_ranked:
  assumes "sorts sort_Slice" and "distinct (map fst contributors)"
  shows "length (orderContributors sort_Slice contributors) = card (fst ` set contributors)
       \<and> (\<exists>ranked. mset ranked = mset contributors
             \<and> orderContributors sort_Slice contributors = map (name \<circ> fst) ranked
             \<and> sorted_wrt (\<lambda>x y. snd x > snd y \<or> (snd x = snd y \<and> name (fst x) \<le> name (fst y)))
                  ranked)
       \<and> (\<forall>A B C eA eB eC.
             A < B \<and> mset contributors =
               {#(\<lparr>name = A, email = eA\<rparr>, 3), (\<lparr>name = B, email = eB\<rparr>, 3),
                 (\<lparr>name = C, email = eC\<rparr>, 1)#}
             \<longrightarrow> orderContributors sort_Slice contributors = [A, B, C])"
proof -
  define ss where "ss = sort_Slice (map stat contributors) less_stat"
  have ms: "mset ss = image_mset stat (mset contributors)"
    and so: "sorted_wrt (\<lambda>a b. \<not> less_stat b a) ss"
    using assms(1) by (simp_all add: sorts_def ss_def)
  have oc: "orderContributors sort_Slice contributors = map stat_name ss"
    by (simp add: orderContributors_def ss_def)
  have "size (mset ss) = size (image_mset stat (mset contributors))" using ms by simp
  then have "length ss = length contributors" by simp
  moreover have "card (fst ` set contributors) = length contributors"
    using distinct_card [OF assms(2)] by simp
  ultimately have one: "length (orderContributors sort_Slice contributors) = card (fst ` set contributors)"
    by (simp add: oc)
  have "mset (map unstat ss) = image_mset unstat (image_mset stat (mset contributors))"
    using ms by simp
  also have "\<dots> = mset contributors"
    by (simp add: multiset.map_comp comp_def unstat_stat)
  finally have r1: "mset (map unstat ss) = mset contributors" .
  have r2: "orderContributors sort_Slice contributors = map (name \<circ> fst) (map unstat ss)"
    by (simp add: oc unstat_def comp_def)
  have r3: "sorted_wrt (\<lambda>x y. snd x > snd y \<or> (snd x = snd y \<and> name (fst x) \<le> name (fst y)))
              (map unstat ss)"
    using so by (simp add: sorted_wrt_map unstat_def not_less_stat)
  have three: "orderContributors sort_Slice contributors = [A, B, C]"
    if "A < B" and "mset contributors =
               {#(\<lparr>name = A, email = eA\<rparr>, 3), (\<lparr>name = B, email = eB\<rparr>, 3),
                 (\<lparr>name = C, email = eC\<rparr>, 1)#}" for A B C eA eB eC
  proof -
    have "mset ss = {#stat (\<lparr>name = A, email = eA\<rparr>, 3), stat (\<lparr>name = B, email = eB\<rparr>, 3),
                      stat (\<lparr>name = C, email = eC\<rparr>, 1)#}"
      using ms that(2) by simp
    moreover have "less_stat (stat (\<lparr>name = A, email = eA\<rparr>, 3)) (stat (\<lparr>name = B, email = eB\<rparr>, 3))"
      using that(1) by (simp add: less_stat_def stat_def)
    moreover have "less_stat (stat (\<lparr>name = A, email = eA\<rparr>, 3)) (stat (\<lparr>name = C, email = eC\<rparr>, 1))"
      by (simp add: less_stat_def stat_def)
    moreover have "less_stat (stat (\<lparr>name = B, email = eB\<rparr>, 3)) (stat (\<lparr>name = C, email = eC\<rparr>, 1))"
      by (simp add: less_stat_def stat_def)
    ultimately have "ss = [stat (\<lparr>name = A, email = eA\<rparr>, 3), stat (\<lparr>name = B, email = eB\<rparr>, 3),
                      stat (\<lparr>name = C, email = eC\<rparr>, 1)]"
      using so three_sorted by blast
    then show ?thesis by (simp add: oc stat_def)
  qed
  show ?thesis
    using one r1 r2 r3 three by blast
qed

theorem orderContributors_ranked_witness:
  "sorts insertion_sort
   \<and> distinct (map fst [(\<lparr>name = ''C'', email = ''c@x''\<rparr>, 1::int),
                         (\<lparr>name = ''B'', email = ''b@x''\<rparr>, 3), (\<lparr>name = ''A'', email = ''a@x''\<rparr>, 3)])
   \<and> ''A'' < ''B''
   \<and> orderContributors insertion_sort
        [(\<lparr>name = ''C'', email = ''c@x''\<rparr>, 1), (\<lparr>name = ''B'', email = ''b@x''\<rparr>, 3),
         (\<lparr>name = ''A'', email = ''a@x''\<rparr>, 3)]
       = [''A'', ''B'', ''C'']"
proof -
  let ?m = "[(\<lparr>name = ''C'', email = ''c@x''\<rparr>, 1::int),
             (\<lparr>name = ''B'', email = ''b@x''\<rparr>, 3), (\<lparr>name = ''A'', email = ''a@x''\<rparr>, 3)]"
  have h1: "sorts insertion_sort" by (rule sorts_insertion_sort)
  have h2: "distinct (map fst ?m)" by simp
  have h3: "''A'' < ''B''" by (simp add: less_char_def)
  have h4: "mset ?m = {#(\<lparr>name = ''A'', email = ''a@x''\<rparr>, 3), (\<lparr>name = ''B'', email = ''b@x''\<rparr>, 3),
                 (\<lparr>name = ''C'', email = ''c@x''\<rparr>, 1)#}"
    by (simp add: add_mset_commute)
  have "orderContributors insertion_sort ?m = [''A'', ''B'', ''C'']"
    using orderContributors_ranked [OF h1 h2] h3 h4 by blast
  then show ?thesis using h1 h2 h3 by blast
qed

section \<open>Properties of the choice of manifest\<close>

lemma vendorConfLoop_error:
  "vendorConfLoop deps lines tooLong = Inl e \<Longrightarrow>
     e = ErrTooLong \<or> (\<exists>ln. e = Error (''invalid config format: '' @ ln))"
proof (induction lines arbitrary: deps)
  case Nil
  then show ?case by (simp split: if_splits)
next
  case (Cons l rest)
  show ?case
  proof (cases "sanitizeLine l ''#'' = []")
    case True
    then show ?thesis using Cons by simp
  next
    case False
    note ne = this
    show ?thesis
    proof (cases "length (Fields (sanitizeLine l ''#'')) \<noteq> 2
              \<and> length (Fields (sanitizeLine l ''#'')) \<noteq> 3")
      case True
      then show ?thesis using Cons.prems ne by auto
    next
      case False
      then show ?thesis using Cons.prems ne Cons.IH by (simp split: if_splits)
    qed
  qed
qed

lemma goModLoop_error:
  "goModLoop foundRequire deps lines tooLong = Inl e \<Longrightarrow>
     e = ErrTooLong \<or> (\<exists>ln. e = Error (''invalid config format: '' @ ln))
     \<or> (\<exists>v. e = Error (''invalid go.mod file, poorly formatted version in requires section '' @ v))"
proof (induction lines arbitrary: foundRequire deps)
  case Nil
  then show ?case by (simp split: if_splits)
next
  case (Cons l rest)
  show ?case
  proof (cases "sanitizeLine l ''//'' = []")
    case True
    then show ?thesis using Cons by simp
  next
    case False
    note ne = this
    show ?thesis
    proof (cases "\<not> foundRequire \<and> length (Fields (sanitizeLine l ''//'')) = 2")
      case True
      then show ?thesis using Cons.prems ne Cons.IH by (simp split: if_splits)
    next
      case False
      note nf = this
      show ?thesis
      proof (cases "length (Fields (sanitizeLine l ''//'')) \<noteq> 2")
        case True
        then show ?thesis using Cons.prems ne nf by (auto split: if_splits)
      next
        case False
        note two = this
        show ?thesis
        proof (cases "getCommitOrVersion (Fields (sanitizeLine l ''//'') ! 1) = []")
          case True
          then show ?thesis using Cons.prems ne nf two by auto
        next
          case False
          then show ?thesis using Cons.prems ne nf two Cons.IH by simp
        qed
      qed
    qed
  qed
qed

lemma parse_not_combined:
  "\<not> combined (parseVendorConfDependencies rd)" "\<not> combined (parseGoModDependencies rd)"
proof -
  show "\<not> combined (parseVendorConfDependencies rd)"
  proof (cases "parseVendorConfDependencies rd")
    case (Inl e)
    then have "e = ErrTooLong \<or> (\<exists>ln. e = Error (''invalid config format: '' @ ln))"
      by (auto simp: parseVendorConfDependencies_def split: prod.splits dest: vendorConfLoop_error)
    then show ?thesis using Inl by (auto simp: combined_def ErrTooLong_def)
  next
    case (Inr ds)
    then show ?thesis by (simp add: combined_def)
  qed
  show "\<not> combined (parseGoModDependencies rd)"
  proof (cases "parseGoModDependencies rd")
    case (Inl e)
    then have "e = ErrTooLong \<or> (\<exists>ln. e = Error (''invalid config format: '' @ ln))
     \<or> (\<exists>v. e = Error (''invalid go.mod file, poorly formatted version in requires section '' @ v))"
      by (auto simp: parseGoModDependencies_def split: prod.splits dest: goModLoop_error)
    then show ?thesis using Inl by (auto simp: combined_def ErrTooLong_def)
  next
    case (Inr ds)
    then show ?thesis by (simp add: combined_def)
  qed
qed

text \<open>
  Claim C9. \<open>parseDependencies\<close> runs the lookup of vendor.conf first. When it
  succeeds, the result is the parse of that file and no other command is run. When
  it fails, the lookup of go.mod is run next; when that one succeeds, the result is
  the parse of go.mod, and the first failure is dropped. When both fail, the result is
  one error whose message holds both failures. The result is that combined error in no
  other case.
\<close>

theorem parseDependencies_fallback:
  assumes "fileFromRev gitConfigs run commit vendorConf tr = (a, tr1)"
    and "fileFromRev gitConfigs run commit goMod tr1 = (b, tr2)"
  shows "(\<forall>rd. a = Inr rd \<longrightarrow>
            parseDependencies gitConfigs run commit tr = (parseVendorConfDependencies rd, tr1))
       \<and> (\<forall>err rd. a = Inl err \<and> b = Inr rd \<longrightarrow>
            parseDependencies gitConfigs run commit tr = (parseGoModDependencies rd, tr2))
       \<and> (\<forall>err err2. a = Inl err \<and> b = Inl err2 \<longrightarrow>
            parseDependencies gitConfigs run commit tr =
              (Inl (Error (''finding current dep file failed. vendor.conf error: ''
                           @ message err @ '', go.mod error: '' @ message err2)), tr2))
       \<and> (combined (fst (parseDependencies gitConfigs run commit tr))
            \<longleftrightarrow> (\<exists>err err2. a = Inl err \<and> b = Inl err2))
       \<and> tr1 = tr @ [concat (map (\<lambda>(k, v). [''-c'', k @ ''='' @ v]) gitConfigs)
                      @ [''show'', commit @ '':vendor.conf'']]
       \<and> tr2 = tr1 @ [concat (map (\<lambda>(k, v). [''-c'', k @ ''='' @ v]) gitConfigs)
                       @ [''show'', commit @ '':go.mod'']]"
proof -
  have c1: "parseDependencies gitConfigs run commit tr = (parseVendorConfDependencies rd, tr1)"
    if "a = Inr rd" for rd
    using that assms(1) by (simp add: parseDependencies_def)
  have c2: "parseDependencies gitConfigs run commit tr = (parseGoModDependencies rd, tr2)"
    if "a = Inl err \<and> b = Inr rd" for err rd
    using that assms by (simp add: parseDependencies_def)
  have c3: "parseDependencies gitConfigs run commit tr =
              (Inl (Error (''finding current dep file failed. vendor.conf error: ''
                           @ message err @ '', go.mod error: '' @ message err2)), tr2)"
    if "a = Inl err \<and> b = Inl err2" for err err2
    using that assms by (simp add: parseDependencies_def)
  have c4: "combined (fst (parseDependencies gitConfigs run commit tr))
            \<longleftrightarrow> (\<exists>err err2. a = Inl err \<and> b = Inl err2)"
  proof (cases a)
    case (Inr rd)
    then show ?thesis using c1 [OF Inr] parse_not_combined(1) by simp
  next
    case (Inl err)
    note a = this
    show ?thesis
    proof (cases b)
      case (Inr rd)
      then show ?thesis using c2 [of err rd] a parse_not_combined(2) by simp
    next
      case (Inl err2)
      then show ?thesis using c3 [of err err2] a by (simp add: combined_def)
    qed
  qed
  have t1: "tr1 = tr @ [concat (map (\<lambda>(k, v). [''-c'', k @ ''='' @ v]) gitConfigs)
                      @ [''show'', commit @ '':vendor.conf'']]"
    using assms(1) by (auto simp: fileFromRev_def git_def vendorConf_def split: prod.splits option.splits)
  have t2: "tr2 = tr1 @ [concat (map (\<lambda>(k, v). [''-c'', k @ ''='' @ v]) gitConfigs)
                       @ [''show'', commit @ '':go.mod'']]"
    using assms(2) by (auto simp: fileFromRev_def git_def goMod_def split: prod.splits option.splits)
  show ?thesis using c1 c2 c3 c4 t1 t2 by blast
qed

theorem parseDependencies_fallback_witness:
  "parseDependencies [] onlyVendorConf ''HEAD'' []
     = (Inr [dep ''a/b'' ''v1'' ''git://a/b''], [[''show'', ''HEAD:vendor.conf'']])
   \<and> parseDependencies [] onlyGoMod ''HEAD'' []
     = (Inr [dep ''a/b'' ''v1'' ''git://a/b''],
        [[''show'', ''HEAD:vendor.conf''], [''show'', ''HEAD:go.mod'']])
   \<and> parseDependencies [] neither ''HEAD'' []
     = (Inl (Error (''finding current dep file failed. vendor.conf error: ''
                    @ ''exit status 128: fatal: path does not exist'' @ '', go.mod error: ''
                    @ ''exit status 128: fatal: path does not exist'')),
        [[''show'', ''HEAD:vendor.conf''], [''show'', ''HEAD:go.mod'']])"
proof -
  have v: "parseVendorConfDependencies ''a/b v1 # pinned'' = Inr [dep ''a/b'' ''v1'' ''git://a/b'']"
    by code_simp
  have g: "parseGoModDependencies ''require (\<newline>a/b v1\<newline>)'' = Inr [dep ''a/b'' ''v1'' ''git://a/b'']"
    by code_simp
  have a1: "fileFromRev [] onlyVendorConf ''HEAD'' vendorConf []
              = (Inr ''a/b v1 # pinned'', [[''show'', ''HEAD:vendor.conf'']])"
    by (simp add: fileFromRev_def git_def vendorConf_def onlyVendorConf_def)
  have b1: "fileFromRev [] onlyVendorConf ''HEAD'' goMod [[''show'', ''HEAD:vendor.conf'']]
              = (Inl (Error ''exit status 128: fatal: path does not exist''),
                 [[''show'', ''HEAD:vendor.conf''], [''show'', ''HEAD:go.mod'']])"
    by (simp add: fileFromRev_def git_def goMod_def onlyVendorConf_def)
  have a2: "fileFromRev [] onlyGoMod ''HEAD'' vendorConf []
              = (Inl (Error ''exit status 128: fatal: path does not exist''),
                 [[''show'', ''HEAD:vendor.conf'']])"
    by (simp add: fileFromRev_def git_def vendorConf_def onlyGoMod_def)
  have b2: "fileFromRev [] onlyGoMod ''HEAD'' goMod [[''show'', ''HEAD:vendor.conf'']]
              = (Inr ''require (\<newline>a/b v1\<newline>)'',
                 [[''show'', ''HEAD:vendor.conf''], [''show'', ''HEAD:go.mod'']])"
    by (simp add: fileFromRev_def git_def goMod_def onlyGoMod_def)
  have a3: "fileFromRev [] neither ''HEAD'' vendorConf []
              = (Inl (Error ''exit status 128: fatal: path does not exist''),
                 [[''show'', ''HEAD:vendor.conf'']])"
    by (simp add: fileFromRev_def git_def vendorConf_def neither_def)
  have b3: "fileFromRev [] neither ''HEAD'' goMod [[''show'', ''HEAD:vendor.conf'']]
              = (Inl (Error ''exit status 128: fatal: path does not exist''),
                 [[''show'', ''HEAD:vendor.conf''], [''show'', ''HEAD:go.mod'']])"
    by (simp add: fileFromRev_def git_def goMod_def neither_def)
  note w1 = parseDependencies_fallback [OF a1 b1, THEN conjunct1, rule_format, OF refl]
  note w2 = parseDependencies_fallback [OF a2 b2, THEN conjunct2, THEN conjunct1, rule_format,
      OF conjI, OF refl refl]
  note w3 = parseDependencies_fallback [OF a3 b3, THEN conjunct2, THEN conjunct2, THEN conjunct1,
      rule_format, OF conjI, OF refl refl]
  show ?thesis
    unfolding w1 w2 w3 v g by simp
qed

section \<open>Properties of the version field of go.mod\<close>

lemma indexFrom_found:
  "indexFrom i s sub = r \<Longrightarrow>
     r = - 1 \<or> (i \<le> r \<and> take (length sub) (drop (nat (r - i)) s) = sub)"
proof (induction s arbitrary: i)
  case Nil
  then show ?case by (auto split: if_splits)
next
  case (Cons c cs)
  show ?case
  proof (cases "take (length sub) (c # cs) = sub")
    case True
    then show ?thesis using Cons.prems by simp
  next
    case False
    then have "indexFrom (i + 1) cs sub = r" using Cons.prems by simp
    then consider "r = - 1"
      | "i + 1 \<le> r" "take (length sub) (drop (nat (r - (i + 1))) cs) = sub"
      using Cons.IH by blast
    then show ?thesis
    proof cases
      case 1
      then show ?thesis by simp
    next
      case 2
      have "nat (r - i) = Suc (nat (r - (i + 1)))" using 2(1) by simp
      then show ?thesis using 2 by simp
    qed
  qed
qed

lemma indexFrom_first:
  "\<forall>k < length v. take (length sub) (drop k (v @ sub)) \<noteq> sub
    \<Longrightarrow> indexFrom i (v @ sub) sub = i + int (length v)"
proof (induction v arbitrary: i)
  case Nil
  show ?case by (cases sub) simp_all
next
  case (Cons c cs)
  have "take (length sub) (drop 0 ((c # cs) @ sub)) \<noteq> sub" using Cons.prems by blast
  then have here: "take (length sub) (c # cs @ sub) \<noteq> sub" by simp
  have "\<forall>k < length cs. take (length sub) (drop k (cs @ sub)) \<noteq> sub"
  proof (intro allI impI)
    fix k assume "k < length cs"
    then have "take (length sub) (drop (Suc k) ((c # cs) @ sub)) \<noteq> sub"
      using Cons.prems by (metis Suc_less_eq length_Cons)
    then show "take (length sub) (drop k (cs @ sub)) \<noteq> sub" by simp
  qed
  then have "indexFrom (i + 1) (cs @ sub) sub = i + 1 + int (length cs)" by (rule Cons.IH)
  then show ?case using here by simp
qed

lemma fieldsFuncFrom_nonempty: "[] \<notin> set (fieldsFuncFrom f cur s)"
  by (induction s arbitrary: cur) auto

lemma FieldsFunc_Nil: "FieldsFunc [] f = []"
  by (simp add: FieldsFunc_def)

lemma getCommitOrVersion_nonempty:
  assumes "length (FieldsFunc cov (\<lambda>c. c = CHR ''-'')) \<in> {1, 2, 3}"
  shows "getCommitOrVersion cov \<noteq> []"
proof -
  have ne: "cov \<noteq> []" using assms FieldsFunc_Nil by force
  have f: "[] \<notin> set (FieldsFunc cov (\<lambda>c. c = CHR ''-''))"
    by (simp add: FieldsFunc_def fieldsFuncFrom_nonempty)
  consider "length (FieldsFunc cov (\<lambda>c. c = CHR ''-'')) = 3"
    | "length (FieldsFunc cov (\<lambda>c. c = CHR ''-'')) = 1 \<or> length (FieldsFunc cov (\<lambda>c. c = CHR ''-'')) = 2"
    using assms by auto
  then show ?thesis
  proof cases
    case 1
    then have "FieldsFunc cov (\<lambda>c. c = CHR ''-'') ! 2 \<in> set (FieldsFunc cov (\<lambda>c. c = CHR ''-''))"
      by simp
    then have "FieldsFunc cov (\<lambda>c. c = CHR ''-'') ! 2 \<noteq> []" using f by metis
    then show ?thesis using 1 by (simp add: getCommitOrVersion_def)
  next
    case 2
    then show ?thesis using ne by (auto simp: getCommitOrVersion_def)
  qed
qed

text \<open>
  Claim C4 as stated fails: the version \<open>+incompatible\<close> has one dash field and the
  suffix, and \<open>getCommitOrVersion\<close> returns it whole, because the program cuts only at
  an offset greater than 0.
\<close>

theorem getCommitOrVersion_keeps_bare_suffix:
  "length (FieldsFunc ''+incompatible'' (\<lambda>c. c = CHR ''-'')) = 1
   \<and> getCommitOrVersion ''+incompatible'' = ''+incompatible''
   \<and> spec_stripIncompatible ''+incompatible'' = []
   \<and> getCommitOrVersion ''+incompatible'' \<noteq> spec_stripIncompatible ''+incompatible''"
  by code_simp

text \<open>
  Claim C4, amended. Let a line of the require block have the two fields \<open>n\<close> and
  \<open>cov\<close>. With three dash fields the commit is the third. With one or two, the commit
  is \<open>cov\<close> itself when \<open>+incompatible\<close> occurs at no offset greater than 0, and it is
  \<open>cov\<close> without the suffix when \<open>cov\<close> ends in \<open>+incompatible\<close>, has text before it
  and has no earlier occurrence of it. In these three cases the loop goes on with a
  dependency of that commit appended. With any other number of dash fields the parse
  ends with the error that names \<open>cov\<close>.
\<close>

theorem getCommitOrVersion_by_dash_fields:
  assumes "Fields (sanitizeLine l ''//'') = [n, cov]"
  shows "(length (FieldsFunc cov (\<lambda>c. c = CHR ''-'')) = 3
            \<longrightarrow> getCommitOrVersion cov = FieldsFunc cov (\<lambda>c. c = CHR ''-'') ! 2)
       \<and> (length (FieldsFunc cov (\<lambda>c. c = CHR ''-'')) \<in> {1, 2}
            \<and> (\<forall>k. 0 < k \<longrightarrow> take (length ''+incompatible'') (drop k cov) \<noteq> ''+incompatible'')
            \<longrightarrow> getCommitOrVersion cov = cov)
       \<and> (\<forall>v. length (FieldsFunc cov (\<lambda>c. c = CHR ''-'')) \<in> {1, 2}
            \<and> cov = v @ ''+incompatible'' \<and> v \<noteq> []
            \<and> (\<forall>k < length v. take (length ''+incompatible'') (drop k cov) \<noteq> ''+incompatible'')
            \<longrightarrow> getCommitOrVersion cov = v)
       \<and> (length (FieldsFunc cov (\<lambda>c. c = CHR ''-'')) \<in> {1, 2, 3}
            \<longrightarrow> goModLoop True deps (l # rest) tooLong =
                goModLoop True (deps @ [dep n (getCommitOrVersion cov) (''git://'' @ n)]) rest tooLong)
       \<and> (length (FieldsFunc cov (\<lambda>c. c = CHR ''-'')) \<notin> {1, 2, 3}
            \<longrightarrow> goModLoop True deps (l # rest) tooLong =
                Inl (Error (''invalid go.mod file, poorly formatted version in requires section ''
                            @ cov)))"
proof (intro conjI allI impI)
  assume "length (FieldsFunc cov (\<lambda>c. c = CHR ''-'')) = 3"
  then show "getCommitOrVersion cov = FieldsFunc cov (\<lambda>c. c = CHR ''-'') ! 2"
    by (simp add: getCommitOrVersion_def)
next
  assume h: "length (FieldsFunc cov (\<lambda>c. c = CHR ''-'')) \<in> {1, 2}
            \<and> (\<forall>k. 0 < k \<longrightarrow> take (length ''+incompatible'') (drop k cov) \<noteq> ''+incompatible'')"
  have "\<not> 0 < strings_Index cov ''+incompatible''"
  proof
    assume pos: "0 < strings_Index cov ''+incompatible''"
    have "strings_Index cov ''+incompatible'' = - 1
          \<or> (0 \<le> strings_Index cov ''+incompatible''
             \<and> take (length ''+incompatible'')
                  (drop (nat (strings_Index cov ''+incompatible'' - 0)) cov) = ''+incompatible'')"
      using indexFrom_found [of 0 cov "''+incompatible''"] by (simp add: strings_Index_def)
    then have "take (length ''+incompatible'') (drop (nat (strings_Index cov ''+incompatible'')) cov) = ''+incompatible''"
      using pos by simp
    moreover have "0 < nat (strings_Index cov ''+incompatible'')" using pos by simp
    ultimately show False using h by blast
  qed
  then show "getCommitOrVersion cov = cov"
    using h by (auto simp: getCommitOrVersion_def)
next
  fix v
  assume h: "length (FieldsFunc cov (\<lambda>c. c = CHR ''-'')) \<in> {1, 2}
            \<and> cov = v @ ''+incompatible'' \<and> v \<noteq> []
            \<and> (\<forall>k < length v. take (length ''+incompatible'') (drop k cov) \<noteq> ''+incompatible'')"
  then have cv: "cov = v @ ''+incompatible''"
    and no: "\<forall>k < length v. take (length ''+incompatible'') (drop k cov) \<noteq> ''+incompatible''"
    by blast+
  have "\<forall>k < length v. take (length ''+incompatible'') (drop k (v @ ''+incompatible''))
                \<noteq> ''+incompatible''"
    using no unfolding cv .
  then have "indexFrom 0 (v @ ''+incompatible'') ''+incompatible'' = 0 + int (length v)"
    by (rule indexFrom_first)
  then have "strings_Index cov ''+incompatible'' = int (length v)"
    using h by (simp add: strings_Index_def)
  then show "getCommitOrVersion cov = v"
    using h by (auto simp: getCommitOrVersion_def)
next
  assume h: "length (FieldsFunc cov (\<lambda>c. c = CHR ''-'')) \<in> {1, 2, 3}"
  then have "getCommitOrVersion cov \<noteq> []" by (rule getCommitOrVersion_nonempty)
  moreover have "sanitizeLine l ''//'' \<noteq> []"
    using assms by (auto simp: Fields_def)
  ultimately show "goModLoop True deps (l # rest) tooLong =
      goModLoop True (deps @ [dep n (getCommitOrVersion cov) (''git://'' @ n)]) rest tooLong"
    using assms by simp
next
  assume h: "length (FieldsFunc cov (\<lambda>c. c = CHR ''-'')) \<notin> {1, 2, 3}"
  then have "getCommitOrVersion cov = []" by (auto simp: getCommitOrVersion_def)
  moreover have "sanitizeLine l ''//'' \<noteq> []"
    using assms by (auto simp: Fields_def)
  ultimately show "goModLoop True deps (l # rest) tooLong =
      Inl (Error (''invalid go.mod file, poorly formatted version in requires section '' @ cov))"
    using assms by simp
qed

lemma no_plus_no_incompatible:
  assumes "CHR ''+'' \<notin> set cov"
  shows "take (length ''+incompatible'') (drop k cov) \<noteq> ''+incompatible''"
proof
  assume "take (length ''+incompatible'') (drop k cov) = ''+incompatible''"
  then have "set (take (length ''+incompatible'') (drop k cov)) = set ''+incompatible''"
    by (rule arg_cong)
  then have "CHR ''+'' \<in> set (take (length ''+incompatible'') (drop k cov))" by simp
  then have "CHR ''+'' \<in> set cov"
    using set_take_subset set_drop_subset by fast
  then show False using assms by simp
qed

theorem getCommitOrVersion_by_dash_fields_witness:
  "Fields (sanitizeLine ''  c/d v0.0.0-20190101-abcdef012345 // indirect'' ''//'')
     = [''c/d'', ''v0.0.0-20190101-abcdef012345'']
   \<and> length (FieldsFunc ''v0.0.0-20190101-abcdef012345'' (\<lambda>c. c = CHR ''-'')) = 3
   \<and> goModLoop True [] [''  c/d v0.0.0-20190101-abcdef012345 // indirect''] False
       = Inr [dep ''c/d'' ''abcdef012345'' ''git://c/d'']
   \<and> length (FieldsFunc ''v1.0.0-rc1'' (\<lambda>c. c = CHR ''-'')) = 2
   \<and> goModLoop True [] [''x/y v1.0.0-rc1''] False = Inr [dep ''x/y'' ''v1.0.0-rc1'' ''git://x/y'']
   \<and> length (FieldsFunc ''v2.0.0+incompatible'' (\<lambda>c. c = CHR ''-'')) = 1
   \<and> goModLoop True [] [''x/y v2.0.0+incompatible''] False = Inr [dep ''x/y'' ''v2.0.0'' ''git://x/y'']
   \<and> length (FieldsFunc ''v1-2-3-4'' (\<lambda>c. c = CHR ''-'')) = 4
   \<and> goModLoop True [] [''x/y v1-2-3-4'', ''z v1''] False
       = Inl (Error ''invalid go.mod file, poorly formatted version in requires section v1-2-3-4'')"
proof -
  have f1: "Fields (sanitizeLine ''  c/d v0.0.0-20190101-abcdef012345 // indirect'' ''//'')
     = [''c/d'', ''v0.0.0-20190101-abcdef012345'']"
    by code_simp
  have n1: "length (FieldsFunc ''v0.0.0-20190101-abcdef012345'' (\<lambda>c. c = CHR ''-'')) = 3"
    by code_simp
  have d1: "FieldsFunc ''v0.0.0-20190101-abcdef012345'' (\<lambda>c. c = CHR ''-'') ! 2 = ''abcdef012345''"
    by code_simp
  have f2: "Fields (sanitizeLine ''x/y v1.0.0-rc1'' ''//'') = [''x/y'', ''v1.0.0-rc1'']"
    by code_simp
  have n2: "length (FieldsFunc ''v1.0.0-rc1'' (\<lambda>c. c = CHR ''-'')) = 2"
    by code_simp
  have o2: "\<forall>k. 0 < k \<longrightarrow> take (length ''+incompatible'') (drop k ''v1.0.0-rc1'') \<noteq> ''+incompatible''"
    using no_plus_no_incompatible [of "''v1.0.0-rc1''"] by simp
  have f3: "Fields (sanitizeLine ''x/y v2.0.0+incompatible'' ''//'') = [''x/y'', ''v2.0.0+incompatible'']"
    by code_simp
  have n3: "length (FieldsFunc ''v2.0.0+incompatible'' (\<lambda>c. c = CHR ''-'')) = 1"
    by code_simp
  have o3: "\<forall>k < length ''v2.0.0''.
              take (length ''+incompatible'') (drop k ''v2.0.0+incompatible'') \<noteq> ''+incompatible''"
    by (simp add: All_less_Suc)
  have f4: "Fields (sanitizeLine ''x/y v1-2-3-4'' ''//'') = [''x/y'', ''v1-2-3-4'']"
    by code_simp
  have n4: "length (FieldsFunc ''v1-2-3-4'' (\<lambda>c. c = CHR ''-'')) = 4"
    by code_simp
  note t1 = getCommitOrVersion_by_dash_fields [OF f1, of "[]" "[]" False]
  note t2 = getCommitOrVersion_by_dash_fields [OF f2, of "[]" "[]" False]
  note t3 = getCommitOrVersion_by_dash_fields [OF f3, of "[]" "[]" False]
  note t4 = getCommitOrVersion_by_dash_fields [OF f4, of "[]" "[''z v1'']" False]
  have c1: "getCommitOrVersion ''v0.0.0-20190101-abcdef012345'' = ''abcdef012345''"
    using t1 n1 d1 by simp
  have g1: "goModLoop True [] [''  c/d v0.0.0-20190101-abcdef012345 // indirect''] False
       = Inr [dep ''c/d'' ''abcdef012345'' ''git://c/d'']"
    using t1 n1 c1 by simp
  have c2: "getCommitOrVersion ''v1.0.0-rc1'' = ''v1.0.0-rc1''"
    using t2 n2 o2 by simp
  have g2: "goModLoop True [] [''x/y v1.0.0-rc1''] False = Inr [dep ''x/y'' ''v1.0.0-rc1'' ''git://x/y'']"
    using t2 n2 c2 by simp
  have c3: "getCommitOrVersion ''v2.0.0+incompatible'' = ''v2.0.0''"
    using t3 [THEN conjunct2, THEN conjunct2, THEN conjunct1, rule_format, of "''v2.0.0''"] n3 o3
    by simp
  have g3: "goModLoop True [] [''x/y v2.0.0+incompatible''] False = Inr [dep ''x/y'' ''v2.0.0'' ''git://x/y'']"
    using t3 n3 c3 by simp
  have g4: "goModLoop True [] [''x/y v1-2-3-4'', ''z v1''] False
       = Inl (Error ''invalid go.mod file, poorly formatted version in requires section v1-2-3-4'')"
    using t4 n4 by simp
  show ?thesis using f1 n1 g1 n2 g2 n3 g3 n4 g4 by blast
qed

section \<open>Properties of the commit field of vendor.conf\<close>

lemma hex40_matches: "hex40 c \<Longrightarrow> regexp_Match_hex40 c"
proof -
  assume h: "hex40 c"
  then have "0 \<in> set [0 ..< length c]" by (simp add: hex40_def)
  moreover have "40 \<le> length (drop 0 c) \<and> list_all lowerHex (take 40 (drop 0 c))"
    using h by (simp add: hex40_def)
  ultimately show ?thesis unfolding regexp_Match_hex40_def list_ex_iff by blast
qed

text \<open>
  What a line of vendor.conf with two or three fields adds: one dependency, whose
  commit is the first 12 characters of the commit field when the pattern of the
  program matches the field, and the field itself otherwise. A 40-character lower-case
  hexadecimal string is matched.
\<close>

lemma vendorConfLoop_commit:
  assumes "Fields (sanitizeLine l ''#'') = parts" and "length parts = 2 \<or> length parts = 3"
  shows "\<exists>d. (\<forall>rest tooLong. vendorConfLoop deps (l # rest) tooLong
                  = vendorConfLoop (deps @ [d]) rest tooLong)
           \<and> Name d = parts ! 0
           \<and> Commit d = (if regexp_Match_hex40 (parts ! 1) then take 12 (parts ! 1) else parts ! 1)
           \<and> (hex40 (parts ! 1) \<longrightarrow> Commit d = take 12 (parts ! 1))"
proof -
  define d where "d = dep (parts ! 0)
      (if regexp_Match_hex40 (parts ! 1) then take 12 (parts ! 1) else parts ! 1)
      (if length parts = 3 then parts ! 2 else ''git://'' @ parts ! 0)"
  have ne: "sanitizeLine l ''#'' \<noteq> []"
    using assms by (auto simp: Fields_def)
  have step: "vendorConfLoop deps (l # rest) tooLong = vendorConfLoop (deps @ [d]) rest tooLong"
    for rest tooLong
    using assms ne by (auto simp: d_def)
  have n: "Name d = parts ! 0" by (simp add: d_def dep_def)
  have c: "Commit d = (if regexp_Match_hex40 (parts ! 1) then take 12 (parts ! 1) else parts ! 1)"
    by (simp add: d_def dep_def)
  have c1: "Commit d = take 12 (parts ! 1)" if "hex40 (parts ! 1)"
    using hex40_matches [OF that] c by simp
  show ?thesis using step n c c1 by blast
qed

text \<open>
  Claim C3. A commit field of 41 hexadecimal digits is no 40-character hexadecimal
  string, so by the claim it is preserved verbatim. The program cuts it to its first
  12 characters: its pattern \<open>[0-9a-f]{40}\<close> has no anchors and matches every field
  that holds 40 such digits in a row. A field with other text before 40 digits is cut
  in the same way. A field that is a 40-character hexadecimal string is cut to 12
  characters, and a field without 40 digits in a row is kept, as the claim says.
\<close>

theorem vendorConf_cuts_field_holding_hex_run:
  "\<not> hex40 ''0123456789abcdef0123456789abcdef012345678''
   \<and> parseVendorConfDependencies ''a/b 0123456789abcdef0123456789abcdef012345678''
     = Inr [dep ''a/b'' ''0123456789ab'' ''git://a/b'']
   \<and> \<not> hex40 ''v1-0123456789abcdef0123456789abcdef01234567''
   \<and> parseVendorConfDependencies ''a/b v1-0123456789abcdef0123456789abcdef01234567''
     = Inr [dep ''a/b'' ''v1-012345678'' ''git://a/b'']
   \<and> hex40 ''0123456789abcdef0123456789abcdef01234567''
   \<and> parseVendorConfDependencies ''a/b 0123456789abcdef0123456789abcdef01234567''
     = Inr [dep ''a/b'' ''0123456789ab'' ''git://a/b'']
   \<and> \<not> hex40 ''abcdef012345''
   \<and> parseVendorConfDependencies ''a/b abcdef012345''
     = Inr [dep ''a/b'' ''abcdef012345'' ''git://a/b'']"
  by code_simp

section \<open>The inputs on which the program departs from its specification\<close>

text \<open>
  Claim C1. The description \<open>Merge pull request #42 from foo/bar\<close> with the
  repository \<open>org/proj\<close> does not become the text the claim gives: the match is cut
  at the \<open>#\<close>, so the text before it ends in a space, and the format of the
  replacement adds a second space before the link. A description that the pattern does
  not match is returned as it is.
\<close>

theorem githubPRLink_two_spaces:
  "githubPRLink ''org/proj''
     \<lparr>change_Commit = ''abc123'', Description = ''Merge pull request #42 from foo/bar''\<rparr>
   = Inr ''Merge pull request  [#42](https://github.com/org/proj/pull/42) from foo/bar''
   \<and> githubPRLink ''org/proj''
       \<lparr>change_Commit = ''abc123'', Description = ''Merge pull request #42 from foo/bar''\<rparr>
     \<noteq> Inr ''Merge pull request [#42](https://github.com/org/proj/pull/42) from foo/bar''
   \<and> githubPRLink ''org/proj'' \<lparr>change_Commit = ''abc123'', Description = ''Fix bug (#42)''\<rparr>
     = Inr ''Fix bug (#42)''"
  by code_simp

text \<open>
  Claim C2. Lines before the marker \<open>require (\<close> are skipped only when they have
  two fields. A line of three fields before the marker ends the parse with an error,
  and a line \<open>)\<close> before the marker ends it with no dependency and no error, although
  a require block follows. Without those lines the same input parses.
\<close>

theorem parseGoModDependencies_before_marker:
  "parseGoModDependencies
     ''module m\<newline>require a/b v1.0.0\<newline>require (\<newline>  c/d v1.2.3\<newline>)''
   = Inl (Error ''invalid config format: require a/b v1.0.0'')
   \<and> parseGoModDependencies
       ''module m\<newline>exclude (\<newline>  a/b v1.0.0\<newline>)\<newline>require (\<newline>  c/d v1.2.3\<newline>)''
     = Inr []
   \<and> parseGoModDependencies ''module m\<newline>require (\<newline>  c/d v1.2.3\<newline>)''
     = Inr [dep ''c/d'' ''v1.2.3'' ''git://c/d'']"
  by code_simp

text \<open>
  Claim C10. \<open>parseChangelog\<close> has no test for a line without fields: on the empty
  second line of this input \<open>fields[0]\<close> and \<open>fields[1:]\<close> are out of range and the
  program panics; no error is returned. A line of white space only does the same. The
  example of the specification, where every line has a field, parses.
\<close>

theorem parseChangelog_panics_without_fields:
  "parseChangelog ''abc123 Fix bug\<newline>\<newline>def456 Add feature''
   = Inl (Panic ''runtime error: slice bounds out of range [1:0]'')
   \<and> parseChangelog ''abc123 Fix bug\<newline>   \<newline>def456 Add feature''
     = Inl (Panic ''runtime error: slice bounds out of range [1:0]'')
   \<and> parseChangelog ''abc123 Fix bug\<newline>def456 Add feature''
     = Inr [\<lparr>change_Commit = ''abc123'', Description = ''Fix bug''\<rparr>,
            \<lparr>change_Commit = ''def456'', Description = ''Add feature''\<rparr>]"
  by code_simp

section \<open>The three functions on every input\<close>

text \<open>
  What \<open>githubPRLink\<close>, the loop of \<open>parseChangelog\<close> and the loop of
  \<open>parseGoModDependencies\<close> before the marker do in general.
\<close>

lemma prLink_match:
  "prLink repo (''Merge pull request #'' @ digits) =
     ''Merge pull request  [#'' @ digits @ ''](https://github.com/'' @ repo @ ''/pull/'' @ digits @ '')''"
  by (simp add: prLink_def strings_Index_def)

lemma githubPRLink_match:
  assumes "digits \<noteq> []" and "list_all isDigit digits" and "rest = [] \<or> \<not> isDigit (hd rest)"
  shows "githubPRLink repo \<lparr>change_Commit = h, Description = ''Merge pull request #'' @ digits @ rest\<rparr>
         = Inr (''Merge pull request  [#'' @ digits @ ''](https://github.com/'' @ repo @ ''/pull/''
                @ digits @ '')'' @ rest)"
proof -
  have r: "takeWhile isDigit rest = []" "dropWhile isDigit rest = rest"
    using assms(3) by (cases rest; simp)+
  have t: "takeWhile isDigit (digits @ rest) = digits"
    using assms(2) r by (simp add: list_all_iff)
  have d: "dropWhile isDigit (digits @ rest) = rest"
    using assms(2) r by (simp add: list_all_iff)
  have R: "ReplaceAllStringFunc (''Merge pull request #'' @ digits @ rest) (prLink repo)
        = prLink repo (''Merge pull request #'' @ digits) @ rest"
    using assms(1) t d by (simp add: ReplaceAllStringFunc_def mergePrefix_def)
  have "githubPRLink repo \<lparr>change_Commit = h, Description = ''Merge pull request #'' @ digits @ rest\<rparr>
        = Inr (ReplaceAllStringFunc (''Merge pull request #'' @ digits @ rest) (prLink repo))"
    by (simp only: githubPRLink_def change.select_convs)
  also have "\<dots> = Inr (prLink repo (''Merge pull request #'' @ digits) @ rest)"
    by (simp only: R)
  also have "\<dots> = Inr (''Merge pull request  [#'' @ digits @ ''](https://github.com/'' @ repo
                        @ ''/pull/'' @ digits @ '')'' @ rest)"
    by (simp only: prLink_match append_assoc)
  finally show ?thesis .
qed

lemma githubPRLink_no_match:
  assumes "take (length mergePrefix) (Description c) \<noteq> mergePrefix
           \<or> drop (length mergePrefix) (Description c) = []
           \<or> \<not> isDigit (hd (drop (length mergePrefix) (Description c)))"
  shows "githubPRLink repo c = Inr (Description c)"
proof -
  have "takeWhile isDigit (drop (length mergePrefix) (Description c)) = []"
    if "drop (length mergePrefix) (Description c) = []
        \<or> \<not> isDigit (hd (drop (length mergePrefix) (Description c)))"
    using that by (cases "drop (length mergePrefix) (Description c)") auto
  then show ?thesis
    using assms unfolding githubPRLink_def ReplaceAllStringFunc_def by auto
qed

lemma changelogLoop_fields:
  assumes "\<forall>l \<in> set lines. Fields l \<noteq> []"
  shows "changelogLoop changes lines False =
           Inr (changes @ map (\<lambda>l. \<lparr>change_Commit = hd (Fields l),
                                     Description = Join (tl (Fields l)) '' ''\<rparr>) lines)"
  using assms
proof (induction lines arbitrary: changes)
  case Nil
  show ?case by simp
next
  case (Cons l rest)
  obtain f fs where f: "Fields l = f # fs" using Cons.prems by (cases "Fields l") auto
  have "\<forall>l \<in> set rest. Fields l \<noteq> []" using Cons.prems by simp
  then show ?case using Cons.IH [of "changes @ [\<lparr>change_Commit = f, Description = Join fs '' ''\<rparr>]"] f
    by simp
qed

lemma changelogLoop_no_fields:
  assumes "\<forall>l \<in> set before. Fields l \<noteq> []" and "Fields l = []"
  shows "changelogLoop changes (before @ l # rest) tooLong
         = Inl (Panic ''runtime error: slice bounds out of range [1:0]'')"
  using assms
proof (induction before arbitrary: changes)
  case Nil
  then show ?case by simp
next
  case (Cons b bs)
  obtain f fs where f: "Fields b = f # fs" using Cons.prems by (cases "Fields b") auto
  then show ?case using Cons by simp
qed

lemma goModLoop_before_marker:
  assumes "sanitizeLine l ''//'' = ln" and "ln \<noteq> []" and "Fields ln = parts"
  shows "goModLoop False deps (l # rest) tooLong =
           (if length parts = 2 then goModLoop (parts = [''require'', ''('']) deps rest tooLong
            else if parts = ['')''] then Inr deps
            else Inl (Error (''invalid config format: '' @ ln)))"
proof (cases "length parts = 2")
  case True
  then obtain a b where ab: "parts = [a, b]"
    by (auto simp: length_Suc_conv numeral_2_eq_2)
  show ?thesis using assms ab by auto
next
  case False
  note n2 = this
  show ?thesis
  proof (cases "parts = ['')'']")
    case True
    then show ?thesis using assms by simp
  next
    case False
    then have "\<not> (length parts = 1 \<and> parts ! 0 = '')'')"
      by (cases parts) auto
    then show ?thesis using assms n2 False by auto
  qed
qed

end
